theory Spec2Isabelle
  imports Complex_Main "HOL-Library.AList" "HOL-Library.List_Lexorder"
begin

section \<open>Characters\<close>

text \<open>
  A source text is a Python \<open>str\<close>, a sequence of code points. The model uses HOL
  strings and reads every \<^typ>\<open>char\<close> as the code point of the same number (0 to 255).
  The classification methods of \<open>str\<close> that the lexer calls are written out for this
  range: beside the ASCII digits and letters, Python counts the superscripts
  \<open>U+00B2\<close>, \<open>U+00B3\<close>, \<open>U+00B9\<close> as digits, the fractions \<open>U+00BC\<close> to \<open>U+00BE\<close> as
  numeric, and the Latin-1 letters as letters.
\<close>

definition cp :: "char \<Rightarrow> nat" where
  "cp c = of_char c"

definition isdecimal :: "char \<Rightarrow> bool" where
  "isdecimal c \<longleftrightarrow> 48 \<le> cp c \<and> cp c \<le> 57"

definition isdigit :: "char \<Rightarrow> bool" where
  "isdigit c \<longleftrightarrow> isdecimal c \<or> cp c = 178 \<or> cp c = 179 \<or> cp c = 185"

definition isnumeric :: "char \<Rightarrow> bool" where
  "isnumeric c \<longleftrightarrow> isdigit c \<or> (188 \<le> cp c \<and> cp c \<le> 190)"

definition isupper :: "char \<Rightarrow> bool" where
  "isupper c \<longleftrightarrow> (65 \<le> cp c \<and> cp c \<le> 90) \<or> (192 \<le> cp c \<and> cp c \<le> 214)
     \<or> (216 \<le> cp c \<and> cp c \<le> 222)"

definition islower :: "char \<Rightarrow> bool" where
  "islower c \<longleftrightarrow> (97 \<le> cp c \<and> cp c \<le> 122) \<or> cp c = 170 \<or> cp c = 181 \<or> cp c = 186
     \<or> (223 \<le> cp c \<and> cp c \<le> 246) \<or> (248 \<le> cp c \<and> cp c \<le> 255)"

definition isalpha :: "char \<Rightarrow> bool" where
  "isalpha c \<longleftrightarrow> isupper c \<or> islower c"

definition isalnum :: "char \<Rightarrow> bool" where
  "isalnum c \<longleftrightarrow> isalpha c \<or> isdecimal c \<or> isdigit c \<or> isnumeric c"

text \<open>The members of the string \<open>' \t\r\n'\<close> that \<open>skip_whitespace\<close> tests against.\<close>

definition is_space :: "char \<Rightarrow> bool" where
  "is_space c \<longleftrightarrow> cp c = 32 \<or> cp c = 9 \<or> cp c = 13 \<or> cp c = 10"

definition newline :: char where
  "newline = CHR 0x0A"

section \<open>Numbers\<close>

text \<open>
  Every number of the language is a Python \<open>float\<close>. The model takes the rational
  number the float stands for: \<open>float\<close> of a decimal literal is the literal's value
  and \<open>+\<close>, \<open>-\<close> and \<open><\<close> are those of the rationals. Rounding, overflow to
  infinity and NaN are outside the model.

  \<open>py_float\<close> is \<open>float(num_str)\<close> on the strings \<open>read_number\<close> builds: characters
  that satisfy \<open>isdigit\<close>, with at most one \<open>.\<close> after the first run. Python parses
  such a string when all its digits are decimal digits and raises \<open>ValueError\<close> when
  a superscript digit occurs.
\<close>

definition digit_val :: "char \<Rightarrow> nat" where
  "digit_val c = cp c - 48"

definition digits_val :: "string \<Rightarrow> nat" where
  "digits_val ds = foldl (\<lambda>a c. 10 * a + digit_val c) 0 ds"

section \<open>Tokens\<close>

text \<open>
  \<open>TokenType\<close> together with the token's \<open>value\<close>: the lexer stores a float in a
  \<open>NUMBER\<close> token, the identifier in a \<open>NAME\<close> token, and in every other token a
  value fixed by the type (the token's own text, \<open>None\<close> for \<open>EOF\<close>).
\<close>

datatype token_type =
    NUMBER rat
  | NAME string
  | LBRACKET
  | RBRACKET
  | LBRACE
  | RBRACE
  | LPAREN
  | RPAREN
  | SEMICOLON
  | EQUALS
  | ASSIGN
  | DOT
  | PLUS
  | MINUS
  | SORT
  | EOF
  | NEWLINE

text \<open>\<open>token.type.name\<close>, as the error messages print it.\<close>

fun type_name :: "token_type \<Rightarrow> string" where
  "type_name (NUMBER v) = ''NUMBER''"
| "type_name (NAME s) = ''NAME''"
| "type_name LBRACKET = ''LBRACKET''"
| "type_name RBRACKET = ''RBRACKET''"
| "type_name LBRACE = ''LBRACE''"
| "type_name RBRACE = ''RBRACE''"
| "type_name LPAREN = ''LPAREN''"
| "type_name RPAREN = ''RPAREN''"
| "type_name SEMICOLON = ''SEMICOLON''"
| "type_name EQUALS = ''EQUALS''"
| "type_name ASSIGN = ''ASSIGN''"
| "type_name DOT = ''DOT''"
| "type_name PLUS = ''PLUS''"
| "type_name MINUS = ''MINUS''"
| "type_name SORT = ''SORT''"
| "type_name EOF = ''EOF''"
| "type_name NEWLINE = ''NEWLINE''"

record token =
  ttype :: token_type
  line :: nat
  column :: nat

section \<open>Values and errors\<close>

datatype val =
    Number rat
  | Sequence "val list"
  | Mapping "(string \<times> val) list"

text \<open>\<open>type(a)\<close>, as the messages of the evaluator print it.\<close>

datatype kind = Kfloat | Klist | Kdict

fun kind_of :: "val \<Rightarrow> kind" where
  "kind_of (Number x) = Kfloat"
| "kind_of (Sequence xs) = Klist"
| "kind_of (Mapping ps) = Kdict"

text \<open>
  The messages of the three exception classes, named after the error taxonomy:
  \<^item> \<open>UnterminatedComment\<close>: the block comment is not closed;
  \<^item> \<open>InvalidCharacter c\<close>: the character \<open>c\<close> is not allowed in a name;
  \<^item> \<open>UnexpectedCharacter c\<close>: the character \<open>c\<close> starts no token;
  \<^item> \<open>ExpectedToken e g\<close>: \<open>eat\<close> expected the type \<open>e\<close> and got \<open>g\<close>;
  \<^item> \<open>UnexpectedTokenInValue g\<close>: no value starts with a token of type \<open>g\<close>;
  \<^item> \<open>ExpectedArraySeparator g\<close>: \<open>;\<close> or \<open>]\<close> expected, got \<open>g\<close>;
  \<^item> \<open>ExpectedKeyName g\<close>: the name of a key expected, got \<open>g\<close>;
  \<^item> \<open>ExpectedDictSeparator g\<close>: \<open>;\<close> or \<open>}\<close> expected, got \<open>g\<close>;
  \<^item> \<open>ExpectedDotAfterExpression\<close>: \<open>.\<close> expected after a constant expression;
  \<^item> \<open>StackUnderflow f\<close>: not enough operands for \<open>f\<close>;
  \<^item> \<open>SortExpectsSequence\<close>: \<open>sort()\<close> expects an array;
  \<^item> \<open>TypeMismatch f a b\<close>: the types \<open>a\<close> and \<open>b\<close> are incompatible for \<open>f\<close>;
  \<^item> \<open>UnknownConstant n\<close>: the constant \<open>n\<close> is unknown;
  \<^item> \<open>UnexpectedTokenInExpression g\<close>: a token of type \<open>g\<close> in an expression;
  \<^item> \<open>MalformedExpression k\<close>: \<open>k\<close> values are left on the stack;
  \<^item> \<open>UnknownNodeType\<close>: the node is of no known class.
\<close>

datatype lexer_msg =
    UnterminatedComment
  | InvalidCharacter char
  | UnexpectedCharacter char

datatype parse_msg =
    ExpectedToken string string
  | UnexpectedTokenInValue string
  | ExpectedArraySeparator string
  | ExpectedKeyName string
  | ExpectedDictSeparator string
  | ExpectedDotAfterExpression

datatype eval_msg =
    StackUnderflow string
  | SortExpectsSequence
  | TypeMismatch string kind kind
  | UnknownConstant string
  | UnexpectedTokenInExpression string
  | MalformedExpression nat
  | UnknownNodeType

text \<open>
  \<open>LexerError\<close> carries the lexer's line and column, \<open>ParseError\<close> and
  \<open>EvaluationError\<close> the token they were raised at (or \<open>None\<close>). \<open>ValueError\<close>,
  \<open>TypeError\<close> and \<open>AttributeError\<close> are Python's own exceptions: \<open>float\<close> of a
  string it cannot parse, \<open><\<close> between values that have no order, and \<open>.type\<close> of
  \<open>None\<close>.
\<close>

datatype error =
    LexerError lexer_msg nat nat
  | ParseError parse_msg "token option"
  | EvaluationError eval_msg "token option"
  | ValueError
  | TypeError
  | AttributeError

definition py_float :: "string \<Rightarrow> error + rat" where
  "py_float s =
     (let ip = takeWhile (\<lambda>c. c \<noteq> CHR ''.'') s;
          fp = drop (length ip + 1) s
      in if ip \<noteq> [] \<and> list_all isdecimal ip \<and> list_all isdecimal fp
         then Inr (of_nat (digits_val ip) + of_nat (digits_val fp) / 10 ^ length fp)
         else Inl ValueError)"

section \<open>Lexer\<close>

text \<open>
  The state of a \<open>Lexer\<close>: the unread text \<open>text[pos:]\<close>, \<open>line\<close> and \<open>column\<close>.
  The tokens are returned instead of being appended to \<open>self.tokens\<close>.
\<close>

type_synonym lexer = "string \<times> nat \<times> nat"

fun peek :: "lexer \<Rightarrow> nat \<Rightarrow> char option" where
  "peek (xs, l, c) k = (if k < length xs then Some (xs ! k) else None)"

fun advance :: "lexer \<Rightarrow> lexer" where
  "advance ([], l, c) = ([], l, c)"
| "advance (x # xs, l, c) = (if x = newline then (xs, l + 1, 1) else (xs, l, c + 1))"

fun skip_whitespace :: "lexer \<Rightarrow> lexer" where
  "skip_whitespace ([], l, c) = ([], l, c)"
| "skip_whitespace (x # xs, l, c) =
     (if is_space x then skip_whitespace (advance (x # xs, l, c)) else (x # xs, l, c))"

text \<open>The loop of \<open>skip_single_line_comment\<close>: up to the end of the line.\<close>

fun skip_line :: "lexer \<Rightarrow> lexer" where
  "skip_line ([], l, c) = ([], l, c)"
| "skip_line (x # xs, l, c) =
     (if x \<noteq> newline then skip_line (advance (x # xs, l, c)) else (x # xs, l, c))"

definition skip_single_line_comment :: "lexer \<Rightarrow> lexer" where
  "skip_single_line_comment s = skip_line (advance (advance s))"

text \<open>The loop of \<open>skip_multi_line_comment\<close>: up to the first \<open>#>\<close>.\<close>

fun skip_block :: "lexer \<Rightarrow> error + lexer" where
  "skip_block ([], l, c) = Inl (LexerError UnterminatedComment l c)"
| "skip_block (x # xs, l, c) =
     (if x = CHR ''#'' \<and> peek (x # xs, l, c) 1 = Some (CHR ''>'')
      then Inr (advance (advance (x # xs, l, c)))
      else skip_block (advance (x # xs, l, c)))"

definition skip_multi_line_comment :: "lexer \<Rightarrow> error + lexer" where
  "skip_multi_line_comment s = skip_block (advance (advance s))"

text \<open>The two digit loops of \<open>read_number\<close>: the digits read and the state after them.\<close>

fun read_digits :: "lexer \<Rightarrow> string \<times> lexer" where
  "read_digits ([], l, c) = ([], ([], l, c))"
| "read_digits (x # xs, l, c) =
     (if isdigit x
      then (case read_digits (advance (x # xs, l, c)) of (ds, s) \<Rightarrow> (x # ds, s))
      else ([], (x # xs, l, c)))"

definition read_number :: "lexer \<Rightarrow> error + token \<times> lexer" where
  "read_number s =
     (case s of (xs, start_line, start_column) \<Rightarrow>
      (case read_digits s of (ip, s1) \<Rightarrow>
       (case (if peek s1 0 = Some (CHR ''.'')
              then (case read_digits (advance s1) of (fp, s2) \<Rightarrow> (ip @ CHR ''.'' # fp, s2))
              else (ip, s1)) of (num_str, s2) \<Rightarrow>
        (case py_float num_str of
           Inl e \<Rightarrow> Inl e
         | Inr v \<Rightarrow> Inr (\<lparr>ttype = NUMBER v, line = start_line, column = start_column\<rparr>, s2)))))"

text \<open>
  The loop of \<open>read_name\<close> after the first character: the characters read and the
  state after them, or the error at an uppercase letter.
\<close>

fun read_name_rest :: "lexer \<Rightarrow> error + string \<times> lexer" where
  "read_name_rest ([], l, c) = Inr ([], ([], l, c))"
| "read_name_rest (x # xs, l, c) =
     (if isalnum x \<or> x = CHR ''_''
      then (if isupper x then Inl (LexerError (InvalidCharacter x) l c)
            else (case read_name_rest (advance (x # xs, l, c)) of
                    Inl e \<Rightarrow> Inl e
                  | Inr (w, s) \<Rightarrow> Inr (x # w, s)))
      else Inr ([], (x # xs, l, c)))"

text \<open>
  \<open>read_name\<close> takes the first character as it is. At the end of the text
  \<open>advance\<close> returns \<open>None\<close> and \<open>name += None\<close> raises \<open>TypeError\<close>.
\<close>

fun read_name :: "lexer \<Rightarrow> error + token \<times> lexer" where
  "read_name ([], l, c) = Inl TypeError"
| "read_name (x # xs, l, c) =
     (case read_name_rest (advance (x # xs, l, c)) of
        Inl e \<Rightarrow> Inl e
      | Inr (w, s) \<Rightarrow>
          Inr (\<lparr>ttype = (if x # w = ''sort'' then SORT else NAME (x # w)),
                line = l, column = c\<rparr>, s))"

text \<open>The chain of \<open>if\<close>/\<open>elif\<close> for operators and separators at the end of the loop body.\<close>

definition read_operator :: "lexer \<Rightarrow> error + token \<times> lexer" where
  "read_operator s =
     (case s of (xs, l, c) \<Rightarrow>
      (case peek s 0 of
         None \<Rightarrow> Inl AttributeError
       | Some ch \<Rightarrow>
          (let tok = (\<lambda>t. \<lparr>ttype = t, line = l, column = c\<rparr>) in
           if ch = CHR ''['' then Inr (tok LBRACKET, advance s)
           else if ch = CHR '']'' then Inr (tok RBRACKET, advance s)
           else if ch = CHR ''{'' then Inr (tok LBRACE, advance s)
           else if ch = CHR ''}'' then Inr (tok RBRACE, advance s)
           else if ch = CHR ''('' then Inr (tok LPAREN, advance s)
           else if ch = CHR '')'' then Inr (tok RPAREN, advance s)
           else if ch = CHR '';'' then Inr (tok SEMICOLON, advance s)
           else if ch = CHR ''='' then Inr (tok EQUALS, advance s)
           else if ch = CHR ''<'' \<and> peek s 1 = Some (CHR ''-'')
             then Inr (tok ASSIGN, advance (advance s))
           else if ch = CHR ''.'' then Inr (tok DOT, advance s)
           else if ch = CHR ''+'' then Inr (tok PLUS, advance s)
           else if ch = CHR ''-'' then Inr (tok MINUS, advance s)
           else Inl (LexerError (UnexpectedCharacter ch) l c))))"

text \<open>No step of the lexer moves backwards, and a step on unread text moves forwards.\<close>

lemma advance_length: "length (fst (advance s)) \<le> length (fst s)"
  by (cases s rule: advance.cases) auto

lemma advance_Cons_length: "length (fst (advance (x # xs, l, c))) = length xs"
  by simp

lemma skip_whitespace_length: "length (fst (skip_whitespace s)) \<le> length (fst s)"
  by (induction s rule: skip_whitespace.induct) (auto split: if_splits)

lemma skip_line_length: "length (fst (skip_line s)) \<le> length (fst s)"
  by (induction s rule: skip_line.induct) (auto split: if_splits)

lemma skip_block_length: "skip_block s = Inr s' \<Longrightarrow> length (fst s') \<le> length (fst s)"
proof (induction s rule: skip_block.induct)
  case (1 l c)
  then show ?case by simp
next
  case (2 x xs l c)
  show ?case
  proof (cases "x = CHR ''#'' \<and> peek (x # xs, l, c) 1 = Some (CHR ''>'')")
    case True
    with "2.prems" have "s' = advance (advance (x # xs, l, c))"
      by (auto simp del: advance.simps peek.simps)
    then show ?thesis
      using advance_length [of "advance (x # xs, l, c)"] by (simp split: if_splits)
  next
    case False
    with "2.prems" have "skip_block (advance (x # xs, l, c)) = Inr s'" by auto
    with "2.IH" False have "length (fst s') \<le> length (fst (advance (x # xs, l, c)))" by blast
    then show ?thesis by (simp split: if_splits)
  qed
qed

lemma read_digits_length: "read_digits s = (ds, s') \<Longrightarrow> length (fst s') \<le> length (fst s)"
proof (induction s arbitrary: ds s' rule: read_digits.induct)
  case (1 l c)
  then show ?case by simp
next
  case (2 x xs l c)
  show ?case
  proof (cases "isdigit x")
    case True
    obtain ds' s'' where r: "read_digits (advance (x # xs, l, c)) = (ds', s'')"
      by (cases "read_digits (advance (x # xs, l, c))")
    with "2.prems" True have "s' = s''" by simp
    moreover from "2.IH" [OF True r] have "length (fst s'') \<le> length xs"
      by (simp split: if_splits)
    ultimately show ?thesis by simp
  next
    case False
    with "2.prems" show ?thesis by simp
  qed
qed

lemma read_digits_first:
  assumes "isdigit x" and "read_digits (x # xs, l, c) = (ds, s')"
  shows "length (fst s') \<le> length xs"
proof -
  obtain ds' s'' where r: "read_digits (advance (x # xs, l, c)) = (ds', s'')"
    by (cases "read_digits (advance (x # xs, l, c))")
  with assms have "s' = s''" by simp
  moreover from read_digits_length [OF r] have "length (fst s'') \<le> length xs"
    by (simp split: if_splits)
  ultimately show ?thesis by simp
qed

lemma read_number_length:
  assumes "isdigit x" and "read_number (x # xs, l, c) = Inr (t, s')"
  shows "length (fst s') \<le> length xs"
proof -
  obtain ip s1 where r1: "read_digits (x # xs, l, c) = (ip, s1)"
    by (cases "read_digits (x # xs, l, c)")
  have l1: "length (fst s1) \<le> length xs"
    using read_digits_first [OF assms(1) r1] .
  show ?thesis
  proof (cases "peek s1 0 = Some (CHR ''.'')")
    case True
    obtain fp s2 where r2: "read_digits (advance s1) = (fp, s2)"
      by (cases "read_digits (advance s1)")
    from assms(2) r1 r2 True have "s' = s2"
      by (auto simp: read_number_def split: sum.splits)
    moreover have "length (fst s2) \<le> length (fst s1)"
      using read_digits_length [OF r2] advance_length [of s1] by simp
    ultimately show ?thesis using l1 by simp
  next
    case False
    with assms(2) r1 have "s' = s1"
      by (auto simp: read_number_def split: sum.splits)
    then show ?thesis using l1 by simp
  qed
qed

lemma read_name_rest_length:
  "read_name_rest s = Inr (w, s') \<Longrightarrow> length (fst s') \<le> length (fst s)"
proof (induction s arbitrary: w rule: read_name_rest.induct)
  case (1 l c)
  then show ?case by simp
next
  case (2 x xs l c)
  show ?case
  proof (cases "(isalnum x \<or> x = CHR ''_'') \<and> \<not> isupper x")
    case True
    with "2.prems" obtain w' where r: "read_name_rest (advance (x # xs, l, c)) = Inr (w', s')"
      by (auto split: sum.splits)
    from "2.IH" [OF _ _ r] True have "length (fst s') \<le> length (fst (advance (x # xs, l, c)))"
      by blast
    then show ?thesis by (simp split: if_splits)
  next
    case False
    with "2.prems" show ?thesis by (auto split: if_splits)
  qed
qed

lemma read_name_length:
  assumes "read_name (x # xs, l, c) = Inr (t, s')"
  shows "length (fst s') \<le> length xs"
proof -
  from assms obtain w where r: "read_name_rest (advance (x # xs, l, c)) = Inr (w, s')"
    by (auto split: sum.splits)
  from read_name_rest_length [OF r] show ?thesis by (simp split: if_splits)
qed

lemma read_operator_length:
  assumes "read_operator (x # xs, l, c) = Inr (t, s')"
  shows "length (fst s') \<le> length xs"
proof -
  have a: "length (fst (advance (advance (x # xs, l, c)))) \<le> length xs"
    using advance_length [of "advance (x # xs, l, c)"] by (simp split: if_splits)
  from assms have "s' = advance (x # xs, l, c) \<or> s' = advance (advance (x # xs, l, c))"
    unfolding read_operator_def by (simp add: Let_def split: if_splits)
  then show ?thesis using a by (auto split: if_splits)
qed

text \<open>
  The loop of \<open>tokenize\<close>. A round skips the whitespace, ends with the \<open>EOF\<close> token
  at the end of the text, skips a comment, or reads one token.
\<close>

function tokenize_loop :: "lexer \<Rightarrow> error + token list" where
  "tokenize_loop s =
     (case skip_whitespace s of
        ([], l, c) \<Rightarrow> Inr [\<lparr>ttype = EOF, line = l, column = c\<rparr>]
      | (ch # cs, l, c) \<Rightarrow>
          if ch = CHR '':'' \<and> peek (ch # cs, l, c) 1 = Some (CHR '':'')
          then tokenize_loop (skip_single_line_comment (ch # cs, l, c))
          else if ch = CHR ''<'' \<and> peek (ch # cs, l, c) 1 = Some (CHR ''#'')
          then (case skip_multi_line_comment (ch # cs, l, c) of
                  Inl e \<Rightarrow> Inl e
                | Inr s' \<Rightarrow> tokenize_loop s')
          else if isdigit ch
          then (case read_number (ch # cs, l, c) of
                  Inl e \<Rightarrow> Inl e
                | Inr (t, s') \<Rightarrow>
                    (case tokenize_loop s' of Inl e \<Rightarrow> Inl e | Inr ts \<Rightarrow> Inr (t # ts)))
          else if islower ch
          then (case read_name (ch # cs, l, c) of
                  Inl e \<Rightarrow> Inl e
                | Inr (t, s') \<Rightarrow>
                    (case tokenize_loop s' of Inl e \<Rightarrow> Inl e | Inr ts \<Rightarrow> Inr (t # ts)))
          else (case read_operator (ch # cs, l, c) of
                  Inl e \<Rightarrow> Inl e
                | Inr (t, s') \<Rightarrow>
                    (case tokenize_loop s' of Inl e \<Rightarrow> Inl e | Inr ts \<Rightarrow> Inr (t # ts))))"
  by pat_completeness auto
termination
proof (relation "measure (\<lambda>s. length (fst s))")
  show "wf (measure (\<lambda>s. length (fst s)))" by simp
next
  fix s :: lexer and x xa ch cs y l c
  assume sw: "(x, y) = skip_whitespace s" "x = ch # cs" "(l, c) = y"
  then have eq: "skip_whitespace s = (ch # cs, l, c)" by simp
  have le: "Suc (length cs) \<le> length (fst s)"
    using skip_whitespace_length [of s] eq by simp
  have "length (fst (skip_line (advance (advance (ch # cs, l, c))))) \<le> length cs"
    using skip_line_length [of "advance (advance (ch # cs, l, c))"]
      advance_length [of "advance (ch # cs, l, c)"] by (simp split: if_splits)
  then show "(skip_single_line_comment (ch # cs, l, c), s) \<in> measure (\<lambda>s. length (fst s))"
    using le by (simp add: skip_single_line_comment_def)
next
  fix s :: lexer and x ch cs y l c s'
  assume sw: "(x, y) = skip_whitespace s" "x = ch # cs" "(l, c) = y"
    and sb: "skip_multi_line_comment (ch # cs, l, c) = Inr s'"
  from sw have eq: "skip_whitespace s = (ch # cs, l, c)" by simp
  have le: "Suc (length cs) \<le> length (fst s)"
    using skip_whitespace_length [of s] eq by simp
  from sb have "length (fst s') \<le> length (fst (advance (advance (ch # cs, l, c))))"
    unfolding skip_multi_line_comment_def by (rule skip_block_length)
  also have "\<dots> \<le> length cs"
    using advance_length [of "advance (ch # cs, l, c)"] by (simp split: if_splits)
  finally show "(s', s) \<in> measure (\<lambda>s. length (fst s))" using le by simp
next
  fix s :: lexer and x ch cs y l c r t s'
  assume sw: "(x, y) = skip_whitespace s" "x = ch # cs" "(l, c) = y"
    and d: "isdigit ch" and rn: "read_number (ch # cs, l, c) = Inr r" "(t, s') = r"
  from sw have eq: "skip_whitespace s = (ch # cs, l, c)" by simp
  have le: "Suc (length cs) \<le> length (fst s)"
    using skip_whitespace_length [of s] eq by simp
  from rn have "read_number (ch # cs, l, c) = Inr (t, s')" by simp
  from read_number_length [OF d this] le
  show "(s', s) \<in> measure (\<lambda>s. length (fst s))" by simp
next
  fix s :: lexer and x ch cs y l c r t s'
  assume sw: "(x, y) = skip_whitespace s" "x = ch # cs" "(l, c) = y"
    and rn: "read_name (ch # cs, l, c) = Inr r" "(t, s') = r"
  from sw have eq: "skip_whitespace s = (ch # cs, l, c)" by simp
  have le: "Suc (length cs) \<le> length (fst s)"
    using skip_whitespace_length [of s] eq by simp
  from rn have "read_name (ch # cs, l, c) = Inr (t, s')" by simp
  from read_name_length [OF this] le
  show "(s', s) \<in> measure (\<lambda>s. length (fst s))" by simp
next
  fix s :: lexer and x ch cs y l c r t s'
  assume sw: "(x, y) = skip_whitespace s" "x = ch # cs" "(l, c) = y"
    and rn: "read_operator (ch # cs, l, c) = Inr r" "(t, s') = r"
  from sw have eq: "skip_whitespace s = (ch # cs, l, c)" by simp
  have le: "Suc (length cs) \<le> length (fst s)"
    using skip_whitespace_length [of s] eq by simp
  from rn have "read_operator (ch # cs, l, c) = Inr (t, s')" by simp
  from read_operator_length [OF this] le
  show "(s', s) \<in> measure (\<lambda>s. length (fst s))" by simp
qed

declare tokenize_loop.simps [simp del]

definition tokenize :: "string \<Rightarrow> error + token list" where
  "tokenize text = tokenize_loop (text, 1, 1)"

section \<open>Parser\<close>

text \<open>
  The nodes of the syntax tree, with the types the dataclasses declare. \<open>DictNode\<close>
  holds a Python \<open>dict\<close>: the pairs in insertion order, a key stored again keeps
  its place and takes the new value (\<open>AList.update\<close>).
\<close>

datatype node =
    NumberNode rat
  | NameNode string
  | ArrayNode "node list"
  | DictNode "(string \<times> node) list"
  | ConstDeclarationNode string node
  | ConstExpressionNode "token list"

text \<open>
  The state of a \<open>Parser\<close> is the list of the tokens from \<open>pos\<close> on:
  \<open>current_token\<close> is its head, or \<open>None\<close> when it is empty, and reading \<open>.type\<close>
  of \<open>None\<close> raises \<open>AttributeError\<close>. Every function returns the node together
  with the tokens left. \<open>eat\<close> takes the name of the expected type.
\<close>

fun eat :: "string \<Rightarrow> token list \<Rightarrow> error + token \<times> token list" where
  "eat nm [] = Inl AttributeError"
| "eat nm (t # ts) =
     (if type_name (ttype t) = nm then Inr (t, ts)
      else Inl (ParseError (ExpectedToken nm (type_name (ttype t))) (Some t)))"

lemma eat_Inr: "eat nm toks = Inr (t, ts) \<longleftrightarrow> toks = t # ts \<and> type_name (ttype t) = nm"
  by (cases toks) auto

text \<open>
  The loop of \<open>parse_const_expression\<close>: the tokens up to the parenthesis that
  closes the expression, and the tokens after that parenthesis.
\<close>

fun collect :: "token list \<Rightarrow> nat \<Rightarrow> token list \<Rightarrow> token list \<times> token list" where
  "collect [] paren_count expr_tokens = (expr_tokens, [])"
| "collect (t # ts) paren_count expr_tokens =
     (if paren_count > 0
      then (let paren_count' =
                  (if ttype t = LPAREN then paren_count + 1
                   else if ttype t = RPAREN then paren_count - 1
                   else paren_count)
            in if paren_count' > 0 then collect ts paren_count' (expr_tokens @ [t])
               else (expr_tokens, ts))
      else (expr_tokens, t # ts))"

definition parse_const_expression :: "token list \<Rightarrow> error + node \<times> token list" where
  "parse_const_expression toks =
     (case eat ''DOT'' toks of
        Inl e \<Rightarrow> Inl e
      | Inr (d, ts) \<Rightarrow>
         (case eat ''LPAREN'' ts of
            Inl e \<Rightarrow> Inl e
          | Inr (p, ts') \<Rightarrow>
             (case collect ts' 1 [] of
                (expr_tokens, []) \<Rightarrow> Inl (ParseError ExpectedDotAfterExpression None)
              | (expr_tokens, r # rs) \<Rightarrow>
                  if ttype r = DOT then Inr (ConstExpressionNode expr_tokens, rs)
                  else Inl (ParseError ExpectedDotAfterExpression (Some r)))))"

text \<open>
  \<open>parse_array_loop\<close> and \<open>parse_dict_loop\<close> are the \<open>while True\<close> loops of
  \<open>parse_array\<close> and \<open>parse_dict\<close>, with the elements and pairs read so far. A new
  round starts behind a value and a semicolon, so on fewer tokens; the definitions
  test that (\<open>length rs < length toks\<close>) to be accepted as terminating, and
  \<open>parse_array_loop_unfold\<close> and \<open>parse_dict_loop_unfold\<close> then remove the test.
\<close>

function parse_value :: "token list \<Rightarrow> error + node \<times> token list"
  and parse_array :: "token list \<Rightarrow> error + node \<times> token list"
  and parse_array_loop :: "token list \<Rightarrow> node list \<Rightarrow> error + node \<times> token list"
  and parse_dict :: "token list \<Rightarrow> error + node \<times> token list"
  and parse_dict_loop :: "token list \<Rightarrow> (string \<times> node) list \<Rightarrow> error + node \<times> token list"
where
  "parse_value toks =
     (case toks of
        [] \<Rightarrow> Inl AttributeError
      | t # ts \<Rightarrow>
         (case ttype t of
            NUMBER v \<Rightarrow> Inr (NumberNode v, ts)
          | NAME s \<Rightarrow> Inr (NameNode s, ts)
          | LBRACKET \<Rightarrow> parse_array toks
          | LBRACE \<Rightarrow> parse_dict toks
          | DOT \<Rightarrow> parse_const_expression toks
          | _ \<Rightarrow> Inl (ParseError (UnexpectedTokenInValue (type_name (ttype t))) (Some t))))"
| "parse_array toks =
     (case eat ''LBRACKET'' toks of
        Inl e \<Rightarrow> Inl e
      | Inr (b, ts) \<Rightarrow>
         (case ts of
            [] \<Rightarrow> Inl AttributeError
          | r # rs \<Rightarrow>
              if ttype r = RBRACKET then Inr (ArrayNode [], rs)
              else parse_array_loop ts []))"
| "parse_array_loop toks elements =
     (case parse_value toks of
        Inl e \<Rightarrow> Inl e
      | Inr (v, rest) \<Rightarrow>
         (case rest of
            [] \<Rightarrow> Inl AttributeError
          | r # rs \<Rightarrow>
              if ttype r = SEMICOLON
              then (case rs of
                      [] \<Rightarrow> Inl AttributeError
                    | r' # rs' \<Rightarrow>
                        if ttype r' = RBRACKET then Inr (ArrayNode (elements @ [v]), rs')
                        else if length rs < length toks
                        then parse_array_loop rs (elements @ [v])
                        else Inl AttributeError)
              else if ttype r = RBRACKET then Inr (ArrayNode (elements @ [v]), rs)
              else Inl (ParseError (ExpectedArraySeparator (type_name (ttype r))) (Some r))))"
| "parse_dict toks =
     (case eat ''LBRACE'' toks of
        Inl e \<Rightarrow> Inl e
      | Inr (b, ts) \<Rightarrow>
         (case ts of
            [] \<Rightarrow> Inl AttributeError
          | r # rs \<Rightarrow>
              if ttype r = RBRACE then Inr (DictNode [], rs)
              else parse_dict_loop ts []))"
| "parse_dict_loop toks pairs =
     (case toks of
        [] \<Rightarrow> Inl AttributeError
      | k # ks \<Rightarrow>
         (case ttype k of
            NAME key_name \<Rightarrow>
             (case eat ''EQUALS'' ks of
                Inl e \<Rightarrow> Inl e
              | Inr (q, vs) \<Rightarrow>
                 (case parse_value vs of
                    Inl e \<Rightarrow> Inl e
                  | Inr (v, rest) \<Rightarrow>
                     (case rest of
                        [] \<Rightarrow> Inl AttributeError
                      | r # rs \<Rightarrow>
                          if ttype r = SEMICOLON
                          then (case rs of
                                  [] \<Rightarrow> Inl AttributeError
                                | r' # rs' \<Rightarrow>
                                    if ttype r' = RBRACE
                                    then Inr (DictNode (AList.update key_name v pairs), rs')
                                    else if length rs < length toks
                                    then parse_dict_loop rs (AList.update key_name v pairs)
                                    else Inl AttributeError)
                          else if ttype r = RBRACE
                          then Inr (DictNode (AList.update key_name v pairs), rs)
                          else Inl (ParseError (ExpectedDictSeparator (type_name (ttype r)))
                                      (Some r)))))
          | _ \<Rightarrow> Inl (ParseError (ExpectedKeyName (type_name (ttype k))) (Some k))))"
  by pat_completeness auto
termination
  apply (relation "measure (\<lambda>x. case x of
      Inl (Inl toks) \<Rightarrow> 3 * length toks + 1
    | Inl (Inr toks) \<Rightarrow> 3 * length toks
    | Inr (Inl (toks, es)) \<Rightarrow> 3 * length toks + 2
    | Inr (Inr (Inl toks)) \<Rightarrow> 3 * length toks
    | Inr (Inr (Inr (toks, ps))) \<Rightarrow> 3 * length toks + 2)")
  apply (auto simp: eat_Inr split: if_splits)
  done


declare parse_value.simps [simp del] parse_array.simps [simp del] parse_array_loop.simps [simp del]
  parse_dict.simps [simp del] parse_dict_loop.simps [simp del]

lemma collect_length: "collect ts pc acc = (ex, rest) \<Longrightarrow> length rest \<le> length ts"
  by (induction ts pc acc rule: collect.induct) (auto simp: Let_def split: if_splits)

lemma parse_const_expression_shorter:
  "parse_const_expression toks = Inr (n, rest) \<Longrightarrow> length rest < length toks"
  unfolding parse_const_expression_def
  by (auto simp: eat_Inr split: sum.splits prod.splits list.splits if_splits dest!: collect_length)

lemma parse_shorter:
  "parse_value toks = Inr (n, rest) \<Longrightarrow> length rest < length toks"
  "parse_array toks1 = Inr (n1, rest1) \<Longrightarrow> length rest1 < length toks1"
  "parse_array_loop toks2 es = Inr (n2, rest2) \<Longrightarrow> length rest2 < length toks2"
  "parse_dict toks3 = Inr (n3, rest3) \<Longrightarrow> length rest3 < length toks3"
  "parse_dict_loop toks4 ps = Inr (n4, rest4) \<Longrightarrow> length rest4 < length toks4"
proof (induction toks and toks1 and toks2 es and toks3 and toks4 ps
    arbitrary: n rest and n1 rest1 and n2 rest2 and n3 rest3 and n4 rest4
    rule: parse_value_parse_array_parse_array_loop_parse_dict_parse_dict_loop.induct)
  case (1 toks)
  from "1.prems" "1.IH" show ?case
    apply (subst (asm) parse_value.simps)
    apply (auto split: list.splits token_type.splits dest: parse_const_expression_shorter)
    done
next
  case (2 toks)
  from "2.prems" "2.IH" show ?case
    apply (subst (asm) parse_array.simps)
    apply (fastforce simp: eat_Inr split: sum.splits list.splits if_splits)
    done
next
  case (3 toks elements)
  from "3.prems" "3.IH" show ?case
    apply (subst (asm) parse_array_loop.simps)
    apply (fastforce split: sum.splits list.splits if_splits)
    done
next
  case (4 toks)
  from "4.prems" "4.IH" show ?case
    apply (subst (asm) parse_dict.simps)
    apply (fastforce simp: eat_Inr split: sum.splits list.splits if_splits)
    done
next
  case (5 toks pairs)
  from "5.prems" "5.IH" show ?case
    apply (subst (asm) parse_dict_loop.simps)
    apply (fastforce simp: eat_Inr split: sum.splits list.splits if_splits token_type.splits)
    done
qed


text \<open>
  The two loops as \<open>parse_array\<close> and \<open>parse_dict\<close> run them: the test on the lengths
  in the definitions holds whenever it is reached.
\<close>

lemma parse_array_loop_unfold:
  "parse_array_loop toks elements =
     (case parse_value toks of
        Inl e \<Rightarrow> Inl e
      | Inr (v, rest) \<Rightarrow>
         (case rest of
            [] \<Rightarrow> Inl AttributeError
          | r # rs \<Rightarrow>
              if ttype r = SEMICOLON
              then (case rs of
                      [] \<Rightarrow> Inl AttributeError
                    | r' # rs' \<Rightarrow>
                        if ttype r' = RBRACKET then Inr (ArrayNode (elements @ [v]), rs')
                        else parse_array_loop rs (elements @ [v]))
              else if ttype r = RBRACKET then Inr (ArrayNode (elements @ [v]), rs)
              else Inl (ParseError (ExpectedArraySeparator (type_name (ttype r))) (Some r))))"
  by (subst parse_array_loop.simps)
    (auto split: sum.splits list.splits dest!: parse_shorter(1))

lemma parse_dict_loop_unfold:
  "parse_dict_loop toks pairs =
     (case toks of
        [] \<Rightarrow> Inl AttributeError
      | k # ks \<Rightarrow>
         (case ttype k of
            NAME key_name \<Rightarrow>
             (case eat ''EQUALS'' ks of
                Inl e \<Rightarrow> Inl e
              | Inr (q, vs) \<Rightarrow>
                 (case parse_value vs of
                    Inl e \<Rightarrow> Inl e
                  | Inr (v, rest) \<Rightarrow>
                     (case rest of
                        [] \<Rightarrow> Inl AttributeError
                      | r # rs \<Rightarrow>
                          if ttype r = SEMICOLON
                          then (case rs of
                                  [] \<Rightarrow> Inl AttributeError
                                | r' # rs' \<Rightarrow>
                                    if ttype r' = RBRACE
                                    then Inr (DictNode (AList.update key_name v pairs), rs')
                                    else parse_dict_loop rs (AList.update key_name v pairs))
                          else if ttype r = RBRACE
                          then Inr (DictNode (AList.update key_name v pairs), rs)
                          else Inl (ParseError (ExpectedDictSeparator (type_name (ttype r)))
                                      (Some r)))))
          | _ \<Rightarrow> Inl (ParseError (ExpectedKeyName (type_name (ttype k))) (Some k))))"
  by (subst parse_dict_loop.simps)
    (auto simp: eat_Inr split: sum.splits list.splits token_type.splits dest!: parse_shorter(1))

text \<open>
  \<open>parse_statement\<close> eats a leading name and, when no \<open><-\<close> follows, steps back
  and parses the value from the name on.
\<close>

definition parse_statement :: "token list \<Rightarrow> error + node \<times> token list" where
  "parse_statement toks =
     (case toks of
        [] \<Rightarrow> Inl AttributeError
      | t # ts \<Rightarrow>
         (case ttype t of
            NAME name \<Rightarrow>
             (case ts of
                [] \<Rightarrow> Inl AttributeError
              | a # as \<Rightarrow>
                  if ttype a = ASSIGN
                  then (case parse_value as of
                          Inl e \<Rightarrow> Inl e
                        | Inr (v, rest) \<Rightarrow> Inr (ConstDeclarationNode name v, rest))
                  else parse_value toks)
          | _ \<Rightarrow> parse_value toks))"

lemma parse_statement_shorter:
  "parse_statement toks = Inr (n, rest) \<Longrightarrow> length rest < length toks"
  unfolding parse_statement_def
  by (auto split: list.splits token_type.splits if_splits sum.splits dest!: parse_shorter(1))

text \<open>The optional semicolon behind a statement.\<close>

fun skip_semicolon :: "token list \<Rightarrow> token list" where
  "skip_semicolon [] = []"
| "skip_semicolon (t # ts) = (if ttype t = SEMICOLON then ts else t # ts)"

lemma skip_semicolon_length: "length (skip_semicolon ts) \<le> length ts"
  by (cases ts) auto

function parse :: "token list \<Rightarrow> error + node list" where
  "parse toks =
     (case toks of
        [] \<Rightarrow> Inr []
      | t # ts \<Rightarrow>
          if ttype t = EOF then Inr []
          else (case parse_statement toks of
                  Inl e \<Rightarrow> Inl e
                | Inr (n, rest) \<Rightarrow>
                   (case parse (skip_semicolon rest) of
                      Inl e \<Rightarrow> Inl e
                    | Inr statements \<Rightarrow> Inr (n # statements))))"
  by pat_completeness auto
termination
proof (relation "measure length")
  show "wf (measure length)" by simp
next
  fix toks :: "token list" and t ts r n rest
  assume "toks = t # ts" and "parse_statement toks = Inr r" and "(n, rest) = r"
  then have "length rest < length toks"
    using parse_statement_shorter [of toks n rest] by simp
  then show "(skip_semicolon rest, toks) \<in> measure length"
    using skip_semicolon_length [of rest] by simp
qed

declare parse.simps [simp del]

definition parse_text :: "string \<Rightarrow> error + node list" where
  "parse_text text = (case tokenize text of Inl e \<Rightarrow> Inl e | Inr tokens \<Rightarrow> parse tokens)"

section \<open>Evaluator\<close>

text \<open>
  The comparisons of Python on the values of the language. \<open>==\<close> never raises:
  numbers are equal as numbers, lists element by element, dicts when they hold
  the same keys with equal values, in any order. \<open><\<close> orders numbers, and lists by
  the first pair of elements that are not equal (a proper prefix is smaller); on any
  other pair of operands it raises \<open>TypeError\<close>.
\<close>

fun py_eq :: "val \<Rightarrow> val \<Rightarrow> bool"
  and py_eq_list :: "val list \<Rightarrow> val list \<Rightarrow> bool"
  and py_eq_items :: "(string \<times> val) list \<Rightarrow> (string \<times> val) list \<Rightarrow> bool"
where
  "py_eq (Number a) y = (case y of Number b \<Rightarrow> a = b | _ \<Rightarrow> False)"
| "py_eq (Sequence xs) y = (case y of Sequence ys \<Rightarrow> py_eq_list xs ys | _ \<Rightarrow> False)"
| "py_eq (Mapping ps) y =
     (case y of Mapping qs \<Rightarrow> length ps = length qs \<and> py_eq_items ps qs | _ \<Rightarrow> False)"
| "py_eq_list [] ys = (ys = [])"
| "py_eq_list (x # xs) ys = (case ys of [] \<Rightarrow> False | y # ys' \<Rightarrow> py_eq x y \<and> py_eq_list xs ys')"
| "py_eq_items [] qs = True"
| "py_eq_items (p # ps) qs =
     (case map_of qs (fst p) of
        None \<Rightarrow> False
      | Some w \<Rightarrow> py_eq (snd p) w \<and> py_eq_items ps qs)"

fun py_lt :: "val \<Rightarrow> val \<Rightarrow> error + bool"
  and py_lt_list :: "val list \<Rightarrow> val list \<Rightarrow> error + bool"
where
  "py_lt (Number a) y = (case y of Number b \<Rightarrow> Inr (a < b) | _ \<Rightarrow> Inl TypeError)"
| "py_lt (Sequence xs) y = (case y of Sequence ys \<Rightarrow> py_lt_list xs ys | _ \<Rightarrow> Inl TypeError)"
| "py_lt (Mapping ps) y = Inl TypeError"
| "py_lt_list [] ys = Inr (ys \<noteq> [])"
| "py_lt_list (x # xs) ys =
     (case ys of
        [] \<Rightarrow> Inr False
      | y # ys' \<Rightarrow> if py_eq x y then py_lt_list xs ys' else py_lt x y)"

text \<open>
  \<open>sorted(operand)\<close> is a stable sort by \<open><\<close>. The model inserts the elements one
  by one, from the last to the first, each in front of the first element that is not
  smaller, and raises \<open>TypeError\<close> when a comparison does. On elements that \<open><\<close>
  orders totally every stable sort returns the same list; which pairs Python's own
  algorithm compares on other lists is not modelled.
\<close>

fun py_insort :: "val \<Rightarrow> val list \<Rightarrow> error + val list" where
  "py_insort x [] = Inr [x]"
| "py_insort x (y # ys) =
     (case py_lt y x of
        Inl e \<Rightarrow> Inl e
      | Inr smaller \<Rightarrow>
          if smaller then (case py_insort x ys of Inl e \<Rightarrow> Inl e | Inr zs \<Rightarrow> Inr (y # zs))
          else Inr (x # y # ys))"

fun py_sorted :: "val list \<Rightarrow> error + val list" where
  "py_sorted [] = Inr []"
| "py_sorted (x # xs) = (case py_sorted xs of Inl e \<Rightarrow> Inl e | Inr ys \<Rightarrow> py_insort x ys)"

text \<open>
  The body of the loop of \<open>evaluate_expression\<close>: one token against the operand
  stack. The stack is a list with its top at the head: \<open>append\<close> is \<open>#\<close>, \<open>pop\<close> takes
  the head, and \<open>stack[0]\<close> is the last element.
\<close>

definition evaluate_token :: "(string \<rightharpoonup> val) \<Rightarrow> val list \<Rightarrow> token \<Rightarrow> error + val list" where
  "evaluate_token constants stack token =
     (case ttype token of
        NUMBER v \<Rightarrow> Inr (Number v # stack)
      | NAME s \<Rightarrow>
          if s = ''sort''
          then (case stack of
                  [] \<Rightarrow> Inl (EvaluationError (StackUnderflow ''sort()'') (Some token))
                | operand # st \<Rightarrow>
                   (case operand of
                      Sequence xs \<Rightarrow>
                       (case py_sorted xs of
                          Inl e \<Rightarrow> Inl e
                        | Inr result \<Rightarrow> Inr (Sequence result # st))
                    | _ \<Rightarrow> Inl (EvaluationError SortExpectsSequence (Some token))))
          else (case constants s of
                  None \<Rightarrow> Inl (EvaluationError (UnknownConstant s) (Some token))
                | Some v \<Rightarrow> Inr (v # stack))
      | PLUS \<Rightarrow>
         (case stack of
            b # a # st \<Rightarrow>
             (case (a, b) of
                (Number x, Number y) \<Rightarrow> Inr (Number (x + y) # st)
              | (Sequence xs, Sequence ys) \<Rightarrow> Inr (Sequence (xs @ ys) # st)
              | _ \<Rightarrow> Inl (EvaluationError (TypeMismatch ''+'' (kind_of a) (kind_of b))
                         (Some token)))
          | _ \<Rightarrow> Inl (EvaluationError (StackUnderflow ''+'') (Some token)))
      | MINUS \<Rightarrow>
         (case stack of
            b # a # st \<Rightarrow>
             (case (a, b) of
                (Number x, Number y) \<Rightarrow> Inr (Number (x - y) # st)
              | _ \<Rightarrow> Inl (EvaluationError (TypeMismatch ''-'' (kind_of a) (kind_of b))
                         (Some token)))
          | _ \<Rightarrow> Inl (EvaluationError (StackUnderflow ''-'') (Some token)))
      | _ \<Rightarrow> Inl (EvaluationError (UnexpectedTokenInExpression (type_name (ttype token)))
                 (Some token)))"

fun evaluate_tokens :: "(string \<rightharpoonup> val) \<Rightarrow> val list \<Rightarrow> token list \<Rightarrow> error + val list" where
  "evaluate_tokens constants stack [] = Inr stack"
| "evaluate_tokens constants stack (token # tokens) =
     (case evaluate_token constants stack token of
        Inl e \<Rightarrow> Inl e
      | Inr stack' \<Rightarrow> evaluate_tokens constants stack' tokens)"

definition evaluate_expression :: "(string \<rightharpoonup> val) \<Rightarrow> token list \<Rightarrow> error + val" where
  "evaluate_expression constants expr_tokens =
     (case evaluate_tokens constants [] expr_tokens of
        Inl e \<Rightarrow> Inl e
      | Inr stack \<Rightarrow>
          if length stack \<noteq> 1
          then Inl (EvaluationError (MalformedExpression (length stack)) None)
          else Inr (last stack))"

text \<open>
  \<open>evaluate_node\<close>, with the list comprehension over the elements of an array and
  the dict comprehension over the pairs of a dict as functions of their own.
\<close>

fun evaluate_node :: "(string \<rightharpoonup> val) \<Rightarrow> node \<Rightarrow> error + val"
  and evaluate_elements :: "(string \<rightharpoonup> val) \<Rightarrow> node list \<Rightarrow> error + val list"
  and evaluate_pairs ::
    "(string \<rightharpoonup> val) \<Rightarrow> (string \<times> node) list \<Rightarrow> (string \<times> val) list \<Rightarrow> error + (string \<times> val) list"
where
  "evaluate_node constants (NumberNode v) = Inr (Number v)"
| "evaluate_node constants (NameNode name) =
     (case constants name of
        None \<Rightarrow> Inl (EvaluationError (UnknownConstant name) None)
      | Some v \<Rightarrow> Inr v)"
| "evaluate_node constants (ArrayNode elements) =
     (case evaluate_elements constants elements of
        Inl e \<Rightarrow> Inl e
      | Inr vs \<Rightarrow> Inr (Sequence vs))"
| "evaluate_node constants (DictNode pairs) =
     (case evaluate_pairs constants pairs [] of
        Inl e \<Rightarrow> Inl e
      | Inr ps \<Rightarrow> Inr (Mapping ps))"
| "evaluate_node constants (ConstExpressionNode tokens) = evaluate_expression constants tokens"
| "evaluate_node constants (ConstDeclarationNode name value) =
     Inl (EvaluationError UnknownNodeType None)"
| "evaluate_elements constants [] = Inr []"
| "evaluate_elements constants (elem # elems) =
     (case evaluate_node constants elem of
        Inl e \<Rightarrow> Inl e
      | Inr v \<Rightarrow>
         (case evaluate_elements constants elems of
            Inl e \<Rightarrow> Inl e
          | Inr vs \<Rightarrow> Inr (v # vs)))"
| "evaluate_pairs constants [] result = Inr result"
| "evaluate_pairs constants (p # pairs) result =
     (case evaluate_node constants (snd p) of
        Inl e \<Rightarrow> Inl e
      | Inr v \<Rightarrow> evaluate_pairs constants pairs (AList.update (fst p) v result))"

text \<open>The decimal digits of a number, as an f-string prints \<open>len(results)\<close>.\<close>

function str_nat :: "nat \<Rightarrow> string" where
  "str_nat n =
     (if n < 10 then [char_of (48 + n)]
      else str_nat (n div 10) @ [char_of (48 + n mod 10)])"
  by pat_completeness auto
termination
  by (relation "measure id") auto

declare str_nat.simps [simp del]

text \<open>
  The loop of \<open>evaluate_all\<close>, on the constants of the evaluator and the results so
  far; it returns both. \<open>evaluate_all\<close> starts it with no results and returns the
  results.
\<close>

fun evaluate_nodes ::
  "(string \<rightharpoonup> val) \<Rightarrow> (string \<times> val) list \<Rightarrow> node list
     \<Rightarrow> error + (string \<rightharpoonup> val) \<times> (string \<times> val) list"
where
  "evaluate_nodes constants results [] = Inr (constants, results)"
| "evaluate_nodes constants results (node # nodes) =
     (case node of
        ConstDeclarationNode name value \<Rightarrow>
         (case evaluate_node constants value of
            Inl e \<Rightarrow> Inl e
          | Inr v \<Rightarrow>
              evaluate_nodes (constants(name \<mapsto> v)) (AList.update name v results) nodes)
      | _ \<Rightarrow>
         (case evaluate_node constants node of
            Inl e \<Rightarrow> Inl e
          | Inr v \<Rightarrow>
              evaluate_nodes constants
                (AList.update (''unnamed_'' @ str_nat (length results)) v results) nodes))"

definition evaluate_all :: "(string \<rightharpoonup> val) \<Rightarrow> node list \<Rightarrow> error + (string \<times> val) list" where
  "evaluate_all constants nodes =
     (case evaluate_nodes constants [] nodes of
        Inl e \<Rightarrow> Inl e
      | Inr (constants', results) \<Rightarrow> Inr results)"

section \<open>Translator\<close>

text \<open>
  \<open>Translator.translate\<close> up to the mapping it hands to the YAML writer: the text
  is tokenized, tokenized again and parsed by \<open>parse_text\<close>, and evaluated by a
  new \<open>Evaluator\<close>, whose constants are empty. An error is returned as the stage
  raised it; the translator wraps it in a \<open>TranslationError\<close> that keeps it as
  the cause.
\<close>

definition translate :: "string \<Rightarrow> error + (string \<times> val) list" where
  "translate text =
     (case tokenize text of
        Inl e \<Rightarrow> Inl e
      | Inr tokens \<Rightarrow>
         (case parse_text text of
            Inl e \<Rightarrow> Inl e
          | Inr ast_nodes \<Rightarrow> evaluate_all Map.empty ast_nodes))"

section \<open>Positions in the text\<close>

text \<open>
  The token that the loop of \<open>tokenize\<close> reads at a character that starts no
  comment: a number at a digit, a name at a lowercase letter, otherwise an operator.
\<close>

definition next_token :: "lexer \<Rightarrow> error + token \<times> lexer" where
  "next_token s =
     (case peek s 0 of
        None \<Rightarrow> read_operator s
      | Some ch \<Rightarrow>
          if isdigit ch then read_number s
          else if islower ch then read_name s
          else read_operator s)"

text \<open>
  \<open>reaches s ts s'\<close>: from the state \<open>s\<close> at the head of its loop the lexer gets to
  the state \<open>s'\<close>, again at the head of the loop, after it has skipped whitespace
  characters, whole comments (a single-line comment with the newline that ends it)
  and read the tokens \<open>ts\<close>. The unread text of \<open>s'\<close> then starts between two
  tokens and outside every comment.
\<close>

inductive reaches :: "lexer \<Rightarrow> token list \<Rightarrow> lexer \<Rightarrow> bool" where
  reaches_here: "reaches s [] s"
| reaches_space:
    "is_space x \<Longrightarrow> reaches (advance (x # xs, l, c)) ts s' \<Longrightarrow> reaches (x # xs, l, c) ts s'"
| reaches_line_comment:
    "skip_line (xs, l, c + 2) = (n # r, l', c') \<Longrightarrow> reaches (advance (n # r, l', c')) ts s'
      \<Longrightarrow> reaches (CHR '':'' # CHR '':'' # xs, l, c) ts s'"
| reaches_block_comment:
    "skip_block (xs, l, c + 2) = Inr s1 \<Longrightarrow> reaches s1 ts s'
      \<Longrightarrow> reaches (CHR ''<'' # CHR ''#'' # xs, l, c) ts s'"
| reaches_token:
    "\<not> is_space x \<Longrightarrow> \<not> (x = CHR '':'' \<and> peek (x # xs, l, c) 1 = Some (CHR '':''))
      \<Longrightarrow> \<not> (x = CHR ''<'' \<and> peek (x # xs, l, c) 1 = Some (CHR ''#''))
      \<Longrightarrow> next_token (x # xs, l, c) = Inr (t, s1) \<Longrightarrow> reaches s1 ts s'
      \<Longrightarrow> reaches (x # xs, l, c) (t # ts) s'"

code_pred reaches .

text \<open>
  The line and the column of the character that follows the text \<open>pre\<close>, counted
  from 1: one more than the newlines of \<open>pre\<close>, and one more than the characters
  of \<open>pre\<close> behind its last newline.
\<close>

definition position_after :: "string \<Rightarrow> nat \<times> nat" where
  "position_after pre =
     (1 + count_list pre newline, 1 + length (takeWhile (\<lambda>a. a \<noteq> newline) (rev pre)))"

text \<open>\<open>located src s\<close>: the state \<open>s\<close> is a position in the text \<open>src\<close>, with the line and column of that position.\<close>

definition located :: "string \<Rightarrow> lexer \<Rightarrow> bool" where
  "located src s \<longleftrightarrow> (\<exists>pre. src = pre @ fst s \<and> snd s = position_after pre)"



section \<open>Properties of the lexer\<close>












lemma tokenize_loop_skip_whitespace: "tokenize_loop (skip_whitespace s) = tokenize_loop s"
proof -
  have "skip_whitespace (skip_whitespace s) = skip_whitespace s"
    by (induction s rule: skip_whitespace.induct) auto
  then show ?thesis
    by (subst tokenize_loop.simps, subst (2) tokenize_loop.simps) simp
qed

lemma tokenize_loop_space:
  "is_space x \<Longrightarrow> tokenize_loop (x # xs, l, c) = tokenize_loop (advance (x # xs, l, c))"
  using tokenize_loop_skip_whitespace [of "(x # xs, l, c)"]
    tokenize_loop_skip_whitespace [of "advance (x # xs, l, c)"]
  by (simp del: advance.simps)

lemma tokenize_loop_line_comment:
  "tokenize_loop (CHR '':'' # CHR '':'' # xs, l, c) = tokenize_loop (skip_line (xs, l, c + 2))"
  by (subst tokenize_loop.simps)
    (simp add: is_space_def cp_def skip_single_line_comment_def newline_def)

lemma tokenize_loop_block_comment:
  "tokenize_loop (CHR ''<'' # CHR ''#'' # xs, l, c) =
     (case skip_block (xs, l, c + 2) of Inl e \<Rightarrow> Inl e | Inr s' \<Rightarrow> tokenize_loop s')"
  by (subst tokenize_loop.simps)
    (simp add: is_space_def cp_def skip_multi_line_comment_def newline_def)

lemma isdigit_start:
  assumes "isdigit d"
  shows "\<not> is_space d" and "d \<noteq> CHR '':''" and "d \<noteq> CHR ''<''"
  using assms by (auto simp: isdigit_def isdecimal_def is_space_def cp_def)

lemma islower_start:
  assumes "islower d"
  shows "\<not> is_space d" and "d \<noteq> CHR '':''" and "d \<noteq> CHR ''<''" and "\<not> isdigit d"
  using assms by (auto simp: islower_def isdigit_def isdecimal_def is_space_def cp_def)

lemma tokenize_loop_digit:
  assumes "isdigit x"
  shows "tokenize_loop (x # xs, l, c) =
     (case read_number (x # xs, l, c) of
        Inl e \<Rightarrow> Inl e
      | Inr (t, s') \<Rightarrow> (case tokenize_loop s' of Inl e \<Rightarrow> Inl e | Inr ts \<Rightarrow> Inr (t # ts)))"
  using assms isdigit_start [OF assms]
  by (subst tokenize_loop.simps) simp

lemma tokenize_loop_lower:
  assumes "islower x"
  shows "tokenize_loop (x # xs, l, c) =
     (case read_name (x # xs, l, c) of
        Inl e \<Rightarrow> Inl e
      | Inr (t, s') \<Rightarrow> (case tokenize_loop s' of Inl e \<Rightarrow> Inl e | Inr ts \<Rightarrow> Inr (t # ts)))"
  using assms islower_start [OF assms]
  by (subst tokenize_loop.simps) (simp del: read_name.simps)

lemma tokenize_loop_operator:
  assumes "\<not> is_space x" and "\<not> isdigit x" and "\<not> islower x"
    and "\<not> (x = CHR '':'' \<and> peek (x # xs, l, c) 1 = Some (CHR '':''))"
    and "\<not> (x = CHR ''<'' \<and> peek (x # xs, l, c) 1 = Some (CHR ''#''))"
  shows "tokenize_loop (x # xs, l, c) =
     (case read_operator (x # xs, l, c) of
        Inl e \<Rightarrow> Inl e
      | Inr (t, s') \<Rightarrow> (case tokenize_loop s' of Inl e \<Rightarrow> Inl e | Inr ts \<Rightarrow> Inr (t # ts)))"
  using assms
  by (subst tokenize_loop.simps) (auto simp del: peek.simps)

lemma skip_line_stops:
  "skip_line s = (n # r, l', c') \<Longrightarrow> n = newline"
  by (induction s rule: skip_line.induct) (auto split: if_splits)

lemma tokenize_loop_token:
  assumes "\<not> is_space x" and "\<not> (x = CHR '':'' \<and> peek (x # xs, l, c) 1 = Some (CHR '':''))"
    and "\<not> (x = CHR ''<'' \<and> peek (x # xs, l, c) 1 = Some (CHR ''#''))"
  shows "tokenize_loop (x # xs, l, c) =
     (case next_token (x # xs, l, c) of
        Inl e \<Rightarrow> Inl e
      | Inr (t, s') \<Rightarrow> (case tokenize_loop s' of Inl e \<Rightarrow> Inl e | Inr ts \<Rightarrow> Inr (t # ts)))"
proof (cases "isdigit x")
  case True
  then show ?thesis by (simp add: tokenize_loop_digit next_token_def)
next
  case False
  show ?thesis
  proof (cases "islower x")
    case True
    with False show ?thesis
      by (simp add: tokenize_loop_lower next_token_def del: read_name.simps)
  next
    case l: False
    show ?thesis
      using tokenize_loop_operator [OF assms(1) False l assms(2,3)] False l
      by (simp add: next_token_def)
  qed
qed

lemma reaches_tokenize_loop:
  "reaches s ts s' \<Longrightarrow>
   tokenize_loop s = (case tokenize_loop s' of Inl e \<Rightarrow> Inl e | Inr ts' \<Rightarrow> Inr (ts @ ts'))"
proof (induction rule: reaches.induct)
  case (reaches_here s)
  show ?case by (simp split: sum.splits)
next
  case (reaches_space x xs l c ts s')
  then show ?case by (simp add: tokenize_loop_space del: advance.simps)
next
  case (reaches_line_comment xs l c n r l' c' ts s')
  have "is_space n"
    using skip_line_stops [OF reaches_line_comment.hyps(1)]
    by (simp add: is_space_def newline_def cp_def)
  then show ?case
    using reaches_line_comment
    by (simp add: tokenize_loop_line_comment tokenize_loop_space del: advance.simps)
next
  case (reaches_block_comment xs l c s1 ts s')
  then show ?case by (simp add: tokenize_loop_block_comment)
next
  case (reaches_token x xs l c t s1 ts s')
  then show ?case
    by (simp add: tokenize_loop_token del: peek.simps split: sum.splits)
qed

lemma reaches_error:
  "reaches s ts s' \<Longrightarrow> tokenize_loop s' = Inl e \<Longrightarrow> tokenize_loop s = Inl e"
  by (simp add: reaches_tokenize_loop)

lemma position_after_Nil: "position_after [] = (1, 1)"
  by (simp add: position_after_def)

lemma position_after_snoc:
  "position_after (pre @ [x]) =
     (if x = newline then (fst (position_after pre) + 1, 1)
      else (fst (position_after pre), snd (position_after pre) + 1))"
  by (simp add: position_after_def)

lemma position_after_line:
  "list_all (\<lambda>a. a \<noteq> newline) w \<Longrightarrow>
   position_after (pre @ w) = (fst (position_after pre), snd (position_after pre) + length w)"
proof (induction w rule: rev_induct)
  case Nil
  then show ?case by simp
next
  case (snoc a w)
  then show ?case
    using position_after_snoc [of "pre @ w" a] by (simp del: append_assoc add: append_assoc [symmetric])
qed

lemma located_start: "located src (src, 1, 1)"
  unfolding located_def by (rule exI [of _ "[]"]) (simp add: position_after_Nil)

lemma located_advance: "located src s \<Longrightarrow> located src (advance s)"
proof (cases s rule: advance.cases)
  case (1 l c)
  assume "located src s"
  with 1 show ?thesis by simp
next
  case (2 x xs l c)
  assume "located src s"
  with 2 obtain pre where p: "src = pre @ x # xs" "(l, c) = position_after pre"
    by (auto simp: located_def)
  have "src = (pre @ [x]) @ xs" using p by simp
  moreover have "snd (advance s) = position_after (pre @ [x])"
    using p(2) [symmetric] position_after_snoc [of pre x] unfolding 2
    by (cases "x = newline") simp_all
  moreover have "fst (advance s) = xs" using 2 by simp
  ultimately show ?thesis unfolding located_def by blast
qed

lemma located_skip_whitespace: "located src s \<Longrightarrow> located src (skip_whitespace s)"
proof (induction s rule: skip_whitespace.induct)
  case (1 l c)
  then show ?case by simp
next
  case (2 x xs l c)
  then show ?case using located_advance [of src "(x # xs, l, c)"] by (simp del: advance.simps)
qed

lemma located_skip_line: "located src s \<Longrightarrow> located src (skip_line s)"
proof (induction s rule: skip_line.induct)
  case (1 l c)
  then show ?case by simp
next
  case (2 x xs l c)
  then show ?case using located_advance [of src "(x # xs, l, c)"] by (auto simp del: advance.simps)
qed

lemma located_skip_block: "located src s \<Longrightarrow> skip_block s = Inr s' \<Longrightarrow> located src s'"
proof (induction s rule: skip_block.induct)
  case (1 l c)
  then show ?case by simp
next
  case (2 x xs l c)
  then show ?case
    using located_advance [of src "(x # xs, l, c)"] located_advance [of src "advance (x # xs, l, c)"]
    by (auto simp del: advance.simps peek.simps split: if_splits)
qed

lemma located_read_digits: "located src s \<Longrightarrow> read_digits s = (ds, s') \<Longrightarrow> located src s'"
proof (induction s arbitrary: ds s' rule: read_digits.induct)
  case (1 l c)
  then show ?case by simp
next
  case (2 x xs l c)
  then show ?case
    using located_advance [of src "(x # xs, l, c)"]
    by (auto simp del: advance.simps split: if_splits prod.splits)
qed

lemma located_read_number:
  assumes "located src s" and "read_number s = Inr (t, s')"
  shows "located src s'"
proof -
  obtain ip s1 where r1: "read_digits s = (ip, s1)"
    by (cases "read_digits s")
  have l1: "located src s1"
    using located_read_digits [OF assms(1) r1] .
  obtain fp s2 where r2: "read_digits (advance s1) = (fp, s2)"
    by (cases "read_digits (advance s1)")
  have l2: "located src s2"
    using located_read_digits [OF located_advance [OF l1] r2] .
  from assms(2) r1 r2 have "s' = s1 \<or> s' = s2"
    unfolding read_number_def
    by (auto simp del: peek.simps split: prod.splits if_splits sum.splits)
  with l1 l2 show ?thesis by blast
qed

lemma located_read_name_rest: "located src s \<Longrightarrow> read_name_rest s = Inr (w, s') \<Longrightarrow> located src s'"
proof (induction s arbitrary: w s' rule: read_name_rest.induct)
  case (1 l c)
  then show ?case by simp
next
  case (2 x xs l c)
  then show ?case
    using located_advance [of src "(x # xs, l, c)"]
    by (auto simp del: advance.simps split: if_splits prod.splits sum.splits)
qed

lemma located_read_name: "located src s \<Longrightarrow> read_name s = Inr (t, s') \<Longrightarrow> located src s'"
proof (cases s rule: read_name.cases)
  case (1 l c)
  assume "read_name s = Inr (t, s')"
  with 1 show ?thesis by simp
next
  case (2 x xs l c)
  assume "located src s" and "read_name s = Inr (t, s')"
  with 2 show ?thesis
    using located_advance [of src "(x # xs, l, c)"]
    by (auto simp del: advance.simps split: sum.splits dest: located_read_name_rest)
qed

lemma located_read_operator:
  assumes "located src s" and "read_operator s = Inr (t, s')"
  shows "located src s'"
proof -
  from assms(2) have "s' = advance s \<or> s' = advance (advance s)"
    unfolding read_operator_def
    by (simp add: Let_def del: peek.simps advance.simps split: prod.splits option.splits if_splits)
  then show ?thesis
    using located_advance [OF assms(1)] located_advance [OF located_advance [OF assms(1)]]
    by blast
qed

lemma located_next_token: "located src s \<Longrightarrow> next_token s = Inr (t, s') \<Longrightarrow> located src s'"
  unfolding next_token_def
  by (auto simp del: peek.simps split: option.splits if_splits
      dest: located_read_number located_read_name located_read_operator)

lemma located_reaches: "reaches s ts s' \<Longrightarrow> located src s \<Longrightarrow> located src s'"
proof (induction rule: reaches.induct)
  case (reaches_here s)
  then show ?case by simp
next
  case (reaches_space x xs l c ts s')
  have "located src (advance (x # xs, l, c))"
    using reaches_space.prems by (rule located_advance)
  then show ?case
    by (rule reaches_space.IH)
next
  case (reaches_line_comment xs l c n r l' c' ts s')
  have "located src (advance (advance (CHR '':'' # CHR '':'' # xs, l, c)))"
    using reaches_line_comment.prems located_advance by blast
  then have "located src (xs, l, c + 2)"
    by (simp add: newline_def)
  then have "located src (skip_line (xs, l, c + 2))"
    by (rule located_skip_line)
  then have "located src (n # r, l', c')"
    using reaches_line_comment.hyps(1) by simp
  then have "located src (advance (n # r, l', c'))"
    by (rule located_advance)
  then show ?case
    by (rule reaches_line_comment.IH)
next
  case (reaches_block_comment xs l c s1 ts s')
  have "located src (advance (advance (CHR ''<'' # CHR ''#'' # xs, l, c)))"
    using reaches_block_comment.prems located_advance by blast
  then have "located src (xs, l, c + 2)"
    by (simp add: newline_def)
  then have "located src s1"
    using reaches_block_comment.hyps(1) by (rule located_skip_block)
  then show ?case
    by (rule reaches_block_comment.IH)
next
  case (reaches_token x xs l c t s1 ts s')
  have "located src s1"
    using reaches_token.prems reaches_token.hyps(4) by (rule located_next_token)
  then show ?case
    by (rule reaches_token.IH)
qed

lemma reaches_position:
  assumes "reaches (pre @ post, 1, 1) ts (post, l, c)"
  shows "(l, c) = position_after pre"
proof -
  have "located (pre @ post) (post, l, c)"
    using located_reaches [OF assms located_start] .
  then show ?thesis by (auto simp: located_def)
qed

lemma newline_no_name_char: "\<not> (isalnum newline \<or> newline = CHR ''_'')"
  by (simp add: isalnum_def isalpha_def isupper_def islower_def isdecimal_def isdigit_def
      isnumeric_def cp_def newline_def)

lemma read_name_rest_uppercase:
  assumes "list_all (\<lambda>a. (isalnum a \<or> a = CHR ''_'') \<and> \<not> isupper a) w" and "isupper u"
  shows "read_name_rest (w @ u # rest, l, c) = Inl (LexerError (InvalidCharacter u) l (c + length w))"
  using assms(1)
proof (induction w arbitrary: c)
  case Nil
  have "isalnum u"
    using assms(2) by (simp add: isalnum_def isalpha_def)
  with assms(2) show ?case by simp
next
  case (Cons a w)
  have "a \<noteq> newline"
    using Cons.prems newline_no_name_char by auto
  with Cons show ?case by simp
qed

lemma isupper_start:
  assumes "isupper u"
  shows "\<not> is_space u" and "\<not> isdigit u" and "\<not> islower u" and "u \<noteq> CHR '':''"
    and "u \<noteq> CHR ''<''"
    and "read_operator (u # rest, l, c) = Inl (LexerError (UnexpectedCharacter u) l c)"
proof -
  have n: "cp u \<noteq> 32" "cp u \<noteq> 9" "cp u \<noteq> 13" "cp u \<noteq> 10"
    and "\<not> isdigit u" and "\<not> islower u"
    using assms by (auto simp: isupper_def islower_def isdigit_def isdecimal_def)
  then show "\<not> is_space u" and "\<not> isdigit u" and "\<not> islower u"
    by (simp_all add: is_space_def)
  have c: "u \<noteq> CHR ''['' \<and> u \<noteq> CHR '']'' \<and> u \<noteq> CHR ''{'' \<and> u \<noteq> CHR ''}''
      \<and> u \<noteq> CHR ''('' \<and> u \<noteq> CHR '')'' \<and> u \<noteq> CHR '';'' \<and> u \<noteq> CHR ''=''
      \<and> u \<noteq> CHR ''<'' \<and> u \<noteq> CHR ''.'' \<and> u \<noteq> CHR ''+'' \<and> u \<noteq> CHR ''-''
      \<and> u \<noteq> CHR '':''"
    using assms by (auto simp: isupper_def cp_def)
  then show "u \<noteq> CHR '':''" and "u \<noteq> CHR ''<''"
    by simp_all
  show "read_operator (u # rest, l, c) = Inl (LexerError (UnexpectedCharacter u) l c)"
    using c by (simp add: read_operator_def)
qed

section \<open>The claims\<close>





text \<open>
  C2. The claim is that \<open>.(seq sort()).\<close> sorts the sequence bound to \<open>seq\<close>. The
  lexer emits the word \<open>sort\<close> as a token of type \<open>SORT\<close>, while the evaluator looks
  for a \<open>NAME\<close> token with the value \<open>sort\<close>: on the claim's own example the
  evaluation stops at the \<open>SORT\<close> token with the error for an unexpected token, and
  nothing is sorted.
\<close>

theorem sort_keyword_rejected:
  "translate ''arr <- [1.0; 2.0; 3.0]; r <- .(arr sort()).;'' =
     Inl (EvaluationError (UnexpectedTokenInExpression ''SORT'')
            (Some \<lparr>ttype = SORT, line = 1, column = 36\<rparr>))"
  by code_simp

lemma py_eq_number_sequence:
  "py_eq_list (map Number xs) (map Number ys) \<longleftrightarrow> xs = ys"
proof (induction xs arbitrary: ys)
  case Nil
  show ?case by (cases ys) simp_all
next
  case (Cons x xs)
  show ?case
  proof (cases ys)
    case Nil
    then show ?thesis by simp
  next
    case (Cons y ys')
    then show ?thesis using Cons.IH [of ys'] by simp
  qed
qed


lemma py_insort_numbers:
  "py_insort (Number x) (map Number ys) = Inr (map Number (insort x ys))"
proof (induction ys)
  case Nil
  show ?case by simp
next
  case (Cons y ys)
  show ?case
  proof (cases "y < x")
    case True
    then show ?thesis using Cons.IH by simp
  next
    case False
    then show ?thesis by simp
  qed
qed

lemma py_sorted_numbers: "py_sorted (map Number xs) = Inr (map Number (sort xs))"
proof (induction xs)
  case Nil
  show ?case by simp
next
  case (Cons x xs)
  then show ?case by (simp add: py_insort_numbers)
qed


















text \<open>
  C7. When the loop of the postfix evaluator has processed all tokens of an
  expression and left the stack \<open>stack\<close>, the evaluation returns the single value of
  the stack if it holds exactly one, and otherwise (none, or more than one) fails
  with the error for a malformed expression, which reports the size of the stack.
\<close>

theorem final_stack_check:
  assumes "evaluate_tokens constants [] expr_tokens = Inr stack"
  shows "evaluate_expression constants expr_tokens =
     (if length stack = 1 then Inr (hd stack)
      else Inl (EvaluationError (MalformedExpression (length stack)) None))"
proof (cases "length stack = 1")
  case True
  then obtain v where "stack = [v]"
    by (cases stack) auto
  with assms show ?thesis by (simp add: evaluate_expression_def)
next
  case False
  with assms show ?thesis by (simp add: evaluate_expression_def)
qed

theorem final_stack_check_witness:
  "evaluate_expression Map.empty [] = Inl (EvaluationError (MalformedExpression 0) None)
   \<and> evaluate_expression Map.empty [\<lparr>ttype = NUMBER 4, line = 1, column = 3\<rparr>] = Inr (Number 4)
   \<and> evaluate_expression Map.empty
       [\<lparr>ttype = NUMBER 4, line = 1, column = 3\<rparr>, \<lparr>ttype = NUMBER 5, line = 1, column = 5\<rparr>]
     = Inl (EvaluationError (MalformedExpression 2) None)"
proof -
  have 0: "evaluate_tokens Map.empty [] [] = Inr []" by simp
  have 1: "evaluate_tokens Map.empty [] [\<lparr>ttype = NUMBER 4, line = 1, column = 3\<rparr>]
      = Inr [Number 4]"
    by (simp add: evaluate_token_def)
  have 2: "evaluate_tokens Map.empty []
       [\<lparr>ttype = NUMBER 4, line = 1, column = 3\<rparr>, \<lparr>ttype = NUMBER 5, line = 1, column = 5\<rparr>]
      = Inr [Number 5, Number 4]"
    by (simp add: evaluate_token_def)
  show ?thesis
    using final_stack_check [OF 0] final_stack_check [OF 1] final_stack_check [OF 2] by simp
qed

text \<open>
  C8, as the lexer has it. The lexer starts a name only at a lowercase letter. When
  it is at the head of its loop behind the text \<open>pre\<close>, at a lowercase letter \<open>x\<close>
  that is followed by characters \<open>w\<close> of a name and then by an uppercase letter \<open>u\<close>,
  lexing fails with \<open>InvalidCharacter\<close>, which names \<open>u\<close> and carries the line and
  column of \<open>u\<close>. When it is at the head of its loop at an uppercase letter \<open>u\<close>
  itself, no name is started and lexing fails with \<open>UnexpectedCharacter\<close>, with the
  character and its line and column. Lines and columns count from 1.
\<close>

theorem uppercase_letter:
  assumes "reaches (pre @ post, 1, 1) ts (post, l, c)" and "isupper u"
  shows "(post = x # w @ u # rest \<and> islower x
            \<and> list_all (\<lambda>a. (isalnum a \<or> a = CHR ''_'') \<and> \<not> isupper a) w
          \<longrightarrow> tokenize (pre @ post)
              = Inl (LexerError (InvalidCharacter u) (fst (position_after (pre @ x # w)))
                       (snd (position_after (pre @ x # w)))))
    \<and> (post = u # rest
          \<longrightarrow> tokenize (pre @ post)
              = Inl (LexerError (UnexpectedCharacter u) (fst (position_after pre))
                       (snd (position_after pre))))"
proof (intro conjI impI)
  have p: "position_after pre = (l, c)"
    using reaches_position [OF assms(1)] by simp
  {
    assume a: "post = x # w @ u # rest \<and> islower x
      \<and> list_all (\<lambda>a. (isalnum a \<or> a = CHR ''_'') \<and> \<not> isupper a) w"
    then have nn: "x \<noteq> newline"
      by (auto simp: islower_def cp_def newline_def)
    have "list_all (\<lambda>a. a \<noteq> newline) (x # w)"
      using a nn newline_no_name_char by (auto simp: list_all_iff)
    from position_after_line [OF this, of pre]
    have q: "position_after (pre @ x # w) = (l, c + 1 + length w)"
      using p by simp
    have "read_name (x # w @ u # rest, l, c)
        = Inl (LexerError (InvalidCharacter u) l (c + 1 + length w))"
      using a nn read_name_rest_uppercase [OF _ assms(2), of w rest l "c + 1"] by simp
    then have "tokenize_loop (post, l, c)
        = Inl (LexerError (InvalidCharacter u) l (c + 1 + length w))"
      using a by (simp add: tokenize_loop_lower del: read_name.simps)
    with assms(1) have "tokenize_loop (pre @ post, 1, 1)
        = Inl (LexerError (InvalidCharacter u) l (c + 1 + length w))"
      by (rule reaches_error)
    then show "tokenize (pre @ post)
        = Inl (LexerError (InvalidCharacter u) (fst (position_after (pre @ x # w)))
                 (snd (position_after (pre @ x # w))))"
      by (simp add: tokenize_def q)
  }
  {
    assume "post = u # rest"
    then have "tokenize_loop (post, l, c) = Inl (LexerError (UnexpectedCharacter u) l c)"
      using isupper_start [OF assms(2)] by (simp add: tokenize_loop_operator)
    with assms(1) have "tokenize_loop (pre @ post, 1, 1)
        = Inl (LexerError (UnexpectedCharacter u) l c)"
      by (rule reaches_error)
    then show "tokenize (pre @ post)
        = Inl (LexerError (UnexpectedCharacter u) (fst (position_after pre))
                 (snd (position_after pre)))"
      by (simp add: tokenize_def p)
  }
qed

theorem uppercase_letter_witness:
  "tokenize ''x myVar'' = Inl (LexerError (InvalidCharacter (CHR ''V'')) 1 5)
   \<and> tokenize ''x Var'' = Inl (LexerError (UnexpectedCharacter (CHR ''V'')) 1 3)"
proof -
  have u: "isupper (CHR ''V'')"
    by (simp add: isupper_def cp_def)
  have r1: "reaches (''x '' @ ''myVar'', 1, 1) [\<lparr>ttype = NAME ''x'', line = 1, column = 1\<rparr>]
      (''myVar'', 1, 3)"
    by code_simp
  have r2: "reaches (''x '' @ ''Var'', 1, 1) [\<lparr>ttype = NAME ''x'', line = 1, column = 1\<rparr>]
      (''Var'', 1, 3)"
    by code_simp
  have h: "''myVar'' = CHR ''m'' # ''y'' @ CHR ''V'' # ''ar'' \<and> islower (CHR ''m'')
      \<and> list_all (\<lambda>a. (isalnum a \<or> a = CHR ''_'') \<and> \<not> isupper a) ''y''"
    by code_simp
  have p: "position_after (''x '' @ CHR ''m'' # ''y'') = (1, 5)" "position_after ''x '' = (1, 3)"
    by code_simp+
  have 1: "tokenize ''x myVar'' = Inl (LexerError (InvalidCharacter (CHR ''V'')) 1 5)"
    using uppercase_letter [OF r1 u, of "CHR ''m''" "''y''" "''ar''", THEN conjunct1, THEN mp, OF h]
    unfolding p by simp
  have 2: "tokenize ''x Var'' = Inl (LexerError (UnexpectedCharacter (CHR ''V'')) 1 3)"
    using uppercase_letter [OF r2 u, of _ _ "''ar''", THEN conjunct2]
    unfolding p by simp
  from 1 2 show ?thesis by blast
qed

theorem uppercase_first_counterexample:
  "tokenize ''Abc'' = Inl (LexerError (UnexpectedCharacter (CHR ''A'')) 1 1)
   \<and> tokenize ''Abc'' \<noteq> Inl (LexerError (InvalidCharacter (CHR ''A'')) 1 1)"
  by code_simp


end
